theory Spec2Isabelle
  imports Main "HOL-Library.Sublist" "HOL-Library.AList" "HOL-Library.Multiset"
begin

section \<open>Strings\<close>

text \<open>
  Python strings are modelled as \<open>string\<close> (lists of 8-bit characters), so the model
  covers ASCII paths. \<open>str.lower\<close> changes the 26 ASCII capital letters only.
\<close>

definition bslash :: char where
  "bslash = CHR 0x5C"

definition slash :: char where
  "slash = CHR ''/''"

definition lower_char :: "char \<Rightarrow> char" where
  "lower_char c =
     (case map_of (zip ''ABCDEFGHIJKLMNOPQRSTUVWXYZ'' ''abcdefghijklmnopqrstuvwxyz'') c of
        Some l \<Rightarrow> l
      | None \<Rightarrow> c)"

definition lower :: "string \<Rightarrow> string" where
  "lower s = map lower_char s"

text \<open>\<open>s.startswith(p)\<close>, \<open>s.endswith(p)\<close> and \<open>p in s\<close> on strings.\<close>

definition startswith :: "string \<Rightarrow> string \<Rightarrow> bool" where
  "startswith s p = prefix p s"

definition endswith :: "string \<Rightarrow> string \<Rightarrow> bool" where
  "endswith s p = suffix p s"

definition str_in :: "string \<Rightarrow> string \<Rightarrow> bool" where
  "str_in p s = sublist p s"

text \<open>\<open>s.find(c, start)\<close> for a one-character needle: \<open>None\<close> stands for \<open>-1\<close>.\<close>

fun find_char :: "char \<Rightarrow> nat \<Rightarrow> string \<Rightarrow> nat option" where
  "find_char c start s =
     (case List.find (\<lambda>i. s ! i = c) [start ..< length s] of
        None \<Rightarrow> None
      | Some i \<Rightarrow> Some i)"

text \<open>\<open>s.split(sep)\<close> for a one-character separator: never the empty list.\<close>

fun split_sep :: "char \<Rightarrow> string \<Rightarrow> string list" where
  "split_sep sep [] = [[]]"
| "split_sep sep (c # cs) =
     (if c = sep then [] # split_sep sep cs
      else (case split_sep sep cs of
              [] \<Rightarrow> [[c]]
            | w # ws \<Rightarrow> (c # w) # ws))"

text \<open>\<open>s.lstrip(sep)\<close> for a one-character set.\<close>

definition lstrip :: "char \<Rightarrow> string \<Rightarrow> string" where
  "lstrip sep s = dropWhile (\<lambda>c. c = sep) s"

section \<open>Paths: \<open>pathlib.Path(path).parts\<close> and \<open>.name\<close>\<close>

text \<open>
  \<open>pathlib.Path\<close> is \<open>WindowsPath\<close> where \<open>os.name == 'nt'\<close> and \<open>PosixPath\<close> elsewhere;
  the program tests \<open>os.name\<close> itself, so both platforms are modelled. The parsing follows
  CPython 3.11's \<open>pathlib\<close> (\<open>_WindowsFlavour.splitroot\<close>, \<open>_PosixFlavour.splitroot\<close>,
  \<open>_Flavour.parse_parts\<close> for a single argument).
\<close>

datatype os = Nt | Posix

definition sep :: "os \<Rightarrow> char" where
  "sep os = (case os of Nt \<Rightarrow> bslash | Posix \<Rightarrow> slash)"

definition drive_letters :: "char list" where
  "drive_letters = ''abcdefghijklmnopqrstuvwxyzABCDEFGHIJKLMNOPQRSTUVWXYZ''"

definition ext_namespace_prefix :: string where
  "ext_namespace_prefix = [bslash, bslash, CHR ''?'', bslash]"

definition split_extended_path :: "string \<Rightarrow> string \<times> string" where
  "split_extended_path s =
     (if startswith s ext_namespace_prefix then
        (let pfx = take 4 s; s1 = drop 4 s in
         if startswith s1 (''UNC'' @ [bslash])
         then (pfx @ take 3 s1, bslash # drop 3 s1)
         else (pfx, s1))
      else ([], s))"

text \<open>The tail of \<open>_WindowsFlavour.splitroot\<close>, after the UNC case did not return.\<close>

definition splitroot_drive :: "string \<Rightarrow> string \<Rightarrow> string \<times> string \<times> string" where
  "splitroot_drive pfx part =
     (let first = take 1 part; second = take 1 (drop 1 part); third = take 1 (drop 2 part);
          has_drv = (second = '':'' \<and> first \<noteq> [] \<and> hd first \<in> set drive_letters);
          drv = (if has_drv then take 2 part else []);
          part1 = (if has_drv then drop 2 part else part);
          first1 = (if has_drv then third else first)
      in if first1 = [bslash] then (pfx @ drv, first1, lstrip bslash part1)
         else (pfx @ drv, [], part1))"

definition splitroot_nt :: "string \<Rightarrow> string \<times> string \<times> string" where
  "splitroot_nt part0 =
     (let ext = (take 1 (drop 1 part0) = [bslash] \<and> take 1 part0 = [bslash]);
          pfx = (if ext then fst (split_extended_path part0) else []);
          part = (if ext then snd (split_extended_path part0) else part0);
          first = take 1 part; second = take 1 (drop 1 part); third = take 1 (drop 2 part)
      in if second = [bslash] \<and> first = [bslash] \<and> third \<noteq> [bslash] then
           (case find_char bslash 2 part of
              None \<Rightarrow> splitroot_drive pfx part
            | Some index \<Rightarrow>
                (case find_char bslash (index + 1) part of
                   None \<Rightarrow>
                     (if pfx \<noteq> [] then (pfx @ drop 1 part, [bslash], [])
                      else (part, [bslash], []))
                 | Some index2 \<Rightarrow>
                     if index2 = index + 1 then splitroot_drive pfx part
                     else if pfx \<noteq> []
                       then (pfx @ take (index2 - 1) (drop 1 part), [bslash], drop (index2 + 1) part)
                       else (take index2 part, [bslash], drop (index2 + 1) part)))
         else splitroot_drive pfx part)"

definition splitroot_posix :: "string \<Rightarrow> string \<times> string \<times> string" where
  "splitroot_posix part =
     (if part \<noteq> [] \<and> hd part = slash then
        (let stripped_part = lstrip slash part in
         if length part - length stripped_part = 2 then ([], [slash, slash], stripped_part)
         else ([], [slash], stripped_part))
      else ([], [], part))"

definition splitroot :: "os \<Rightarrow> string \<Rightarrow> string \<times> string \<times> string" where
  "splitroot os part = (case os of Nt \<Rightarrow> splitroot_nt part | Posix \<Rightarrow> splitroot_posix part)"

text \<open>
  \<open>parse_parts\<close> for one argument: the alternative separator is replaced on Windows, the
  relative part is split at the separator, and empty and \<open>.\<close> components are dropped.
  The result is (drive, root, tail); \<open>parts\<close> puts drive + root in front of the tail
  when either is non-empty, and \<open>name\<close> is the last component of the tail.
\<close>

definition replace_altsep :: "os \<Rightarrow> string \<Rightarrow> string" where
  "replace_altsep os part =
     (case os of Nt \<Rightarrow> map (\<lambda>c. if c = slash then bslash else c) part | Posix \<Rightarrow> part)"

definition path_tail :: "os \<Rightarrow> string \<Rightarrow> string list" where
  "path_tail os path =
     (let rel = snd (snd (splitroot os (replace_altsep os path)))
      in filter (\<lambda>x. x \<noteq> [] \<and> x \<noteq> ''.'') (split_sep (sep os) rel))"

definition path_anchor :: "os \<Rightarrow> string \<Rightarrow> string" where
  "path_anchor os path =
     (let r = splitroot os (replace_altsep os path) in fst r @ fst (snd r))"

definition path_parts :: "os \<Rightarrow> string \<Rightarrow> string list" where
  "path_parts os path =
     (if path = [] then []
      else if path_anchor os path \<noteq> [] then path_anchor os path # path_tail os path
      else path_tail os path)"

definition path_name :: "os \<Rightarrow> string \<Rightarrow> string" where
  "path_name os path =
     (if path = [] \<or> path_tail os path = [] then [] else last (path_tail os path))"

section \<open>Classification tables\<close>

text \<open>\<open>SPACE_HOGS\<close> is a dict: its items in insertion order.\<close>

definition SPACE_HOGS :: "(string \<times> string) list" where
  "SPACE_HOGS =
     [(''node_modules'', ''NPM packages (usually safe to delete if not actively developing)''),
      (''.conda'', ''Conda environments (safe if not needed)''),
      (''.venv'', ''Python virtual environments (safe if not needed)''),
      (''.cache'', ''Cache files (usually safe to delete)''),
      (''.npm'', ''NPM cache (safe to delete)''),
      (''temp'', ''Temporary files (safe to delete)''),
      (''tmp'', ''Temporary files (safe to delete)''),
      (''.git'', ''Git repositories (contains version history, be careful)''),
      (''build'', ''Build artifacts (usually safe if not actively building)''),
      (''dist'', ''Distribution files (usually safe if not needed)''),
      (''logs'', ''Log files (usually safe to delete old logs)''),
      (''.nuget'', ''NuGet package cache (safe if not actively developing)''),
      (''.gradle'', ''Gradle build system cache (safe if not actively developing)''),
      (''.m2'', ''Maven repository (safe if not actively developing)''),
      (''AppData'', ''Application data (may contain important settings)'')]"

text \<open>\<open>PROTECTED_FOLDERS\<close> is a set; only membership and existential iteration use it.\<close>

definition PROTECTED_FOLDERS :: "string list" where
  "PROTECTED_FOLDERS =
     [''Windows'', ''Program Files'', ''Program Files (x86)'', ''ProgramData'',
      ''System32'', ''System Volume Information'', ''$Recycle.Bin'', ''$WINDOWS.~BT'',
      ''pagefile.sys'', ''hiberfil.sys'', ''swapfile.sys'', ''bootmgr'']"

section \<open>PathClassifier\<close>

text \<open>\<open>is_path_protected\<close>: some part of the path is a member of \<open>PROTECTED_FOLDERS\<close>.\<close>

definition is_path_protected :: "os \<Rightarrow> string \<Rightarrow> bool" where
  "is_path_protected os path =
     list_ex (\<lambda>part. List.member PROTECTED_FOLDERS part) (path_parts os path)"

text \<open>The loop of \<open>is_safe_to_delete\<close> over \<open>SPACE_HOGS.items()\<close>: the first match returns.\<close>

fun match_space_hogs :: "string \<Rightarrow> (string \<times> string) list \<Rightarrow> bool \<times> string" where
  "match_space_hogs name [] = (False, ''Unknown'')"
| "match_space_hogs name ((pattern, description) # rest) =
     (if name = pattern \<or> lower name = lower pattern then
        (if str_in ''safe'' (lower description) then (True, description)
         else (False, description))
      else match_space_hogs name rest)"

definition is_safe_to_delete :: "os \<Rightarrow> string \<Rightarrow> bool \<times> string" where
  "is_safe_to_delete os path =
     (if is_path_protected os path then (False, ''System protected'')
      else match_space_hogs (path_name os path) SPACE_HOGS)"

text \<open>
  \<open>is_protected\<close>: the lower-cased path contains a lower-cased protected name between two
  backslashes or two slashes, or ends with a backslash or slash followed by the name.
\<close>

definition is_protected :: "string \<Rightarrow> bool" where
  "is_protected path =
     (let path_lower = lower path in
      list_ex (\<lambda>protected.
          let protected_lower = lower protected in
          str_in ([bslash] @ protected_lower @ [bslash]) path_lower \<or>
          endswith path_lower ([bslash] @ protected_lower) \<or>
          str_in ([slash] @ protected_lower @ [slash]) path_lower \<or>
          endswith path_lower ([slash] @ protected_lower))
        PROTECTED_FOLDERS)"

section \<open>Entries\<close>

text \<open>A scan result is the tuple \<open>(path, size, is_file, is_safe, reason)\<close>.\<close>

type_synonym entry = "string \<times> int \<times> bool \<times> bool \<times> string"

definition e_path :: "entry \<Rightarrow> string" where
  "e_path e = fst e"

definition e_size :: "entry \<Rightarrow> int" where
  "e_size e = fst (snd e)"

definition e_is_file :: "entry \<Rightarrow> bool" where
  "e_is_file e = fst (snd (snd e))"

definition e_is_safe :: "entry \<Rightarrow> bool" where
  "e_is_safe e = fst (snd (snd (snd e)))"

definition e_reason :: "entry \<Rightarrow> string" where
  "e_reason e = snd (snd (snd (snd e)))"

text \<open>The tuple the scanner appends for a path: classification supplies the last two fields.\<close>

definition mk_entry :: "os \<Rightarrow> string \<Rightarrow> int \<Rightarrow> bool \<Rightarrow> entry" where
  "mk_entry os path sz is_file =
     (path, sz, is_file, fst (is_safe_to_delete os path), snd (is_safe_to_delete os path))"

section \<open>Reconciler: the duplicate filter and the ranking of \<open>analyze\<close>\<close>

text \<open>
  \<open>path_dict\<close> is a dict keyed by path: an association list in insertion order, where
  assigning to a key that is present replaces its value in place (\<open>AList.update\<close>) and
  assigning to a new key appends. One iteration of the loop:
  \<^verbatim>\<open>if path not in path_dict or (path in path_dict and size > path_dict[path][1]):
      path_dict[path] = result\<close>
\<close>

definition reconcile_step :: "(string \<times> entry) list \<Rightarrow> entry \<Rightarrow> (string \<times> entry) list" where
  "reconcile_step path_dict result =
     (case map_of path_dict (e_path result) of
        None \<Rightarrow> AList.update (e_path result) result path_dict
      | Some kept \<Rightarrow>
          if e_size result > e_size kept then AList.update (e_path result) result path_dict
          else path_dict)"

definition path_dict_of :: "entry list \<Rightarrow> (string \<times> entry) list" where
  "path_dict_of results = foldl reconcile_step [] results"

text \<open>\<open>filtered_results = list(path_dict.values())\<close>.\<close>

definition reconcile :: "entry list \<Rightarrow> entry list" where
  "reconcile results = map snd (path_dict_of results)"

text \<open>
  \<open>filtered_results.sort(key=lambda x: x[1], reverse=True)\<close>: Python's sort is stable, also
  with \<open>reverse=True\<close> (entries with equal keys keep their order), so it is the stable
  insertion sort on the negated size.
\<close>

definition sort_by_size_desc :: "entry list \<Rightarrow> entry list" where
  "sort_by_size_desc rs = sort_key (\<lambda>x. - e_size x) rs"

text \<open>The slice \<open>xs[:n]\<close>: a negative \<open>n\<close> counts from the end, clipped at the start.\<close>

definition slice_to :: "int \<Rightarrow> 'a list \<Rightarrow> 'a list" where
  "slice_to n xs =
     (if n < 0 then take (nat (int (length xs) + n)) xs else take (nat n) xs)"

definition top_results :: "int \<Rightarrow> entry list \<Rightarrow> entry list" where
  "top_results n results = slice_to n (sort_by_size_desc (reconcile results))"

section \<open>Threshold parsing in \<open>analyze\<close>\<close>

definition DEFAULT_THRESHOLD :: int where
  "DEFAULT_THRESHOLD = 1024 * 1024"

definition units :: "(string \<times> int) list" where
  "units = [(''b'', 1), (''kb'', 1024), (''mb'', 1024 ^ 2), (''gb'', 1024 ^ 3), (''tb'', 1024 ^ 4)]"

text \<open>
  \<open>float(s)\<close> is modelled on unsigned decimal integer literals up to \<open>2 ^ 53\<close>, which a
  double holds exactly, so that the product with a power of two and \<open>int(...)\<close> are exact.
  \<open>None\<close> stands for every other string: \<open>float\<close> raises \<open>ValueError\<close> on it or returns
  a value outside this fragment.
\<close>

definition digit_val :: "char \<Rightarrow> int option" where
  "digit_val c = map_of (zip ''0123456789'' [0, 1, 2, 3, 4, 5, 6, 7, 8, 9]) c"

fun digits_val :: "int \<Rightarrow> string \<Rightarrow> int option" where
  "digits_val acc [] = Some acc"
| "digits_val acc (c # cs) =
     (case digit_val c of None \<Rightarrow> None | Some d \<Rightarrow> digits_val (10 * acc + d) cs)"

definition py_float :: "string \<Rightarrow> int option" where
  "py_float s =
     (if s = [] then None
      else (case digits_val 0 s of
              None \<Rightarrow> None
            | Some v \<Rightarrow> if v \<le> 2 ^ 53 then Some v else None))"

definition parse_threshold :: "string \<Rightarrow> int option" where
  "parse_threshold threshold0 =
     (if threshold0 = [] then Some DEFAULT_THRESHOLD
      else
        (let threshold = lower threshold0;
             last2 = drop (length threshold - 2) threshold;
             last1 = drop (length threshold - 1) threshold
         in if last2 \<in> set (map fst units) then
              (case (py_float (take (length threshold - 2) threshold), map_of units last2) of
                 (Some threshold_value, Some u) \<Rightarrow> Some (threshold_value * u)
               | _ \<Rightarrow> None)
            else if last1 \<in> set (map (\<lambda>k. take 1 k) (map fst units)) then
              (case (py_float (take (length threshold - 1) threshold),
                     map_of units (hd (filter (\<lambda>k. startswith k last1) (map fst units)))) of
                 (Some threshold_value, Some u) \<Rightarrow> Some (threshold_value * u)
               | _ \<Rightarrow> None)
            else
              (case (py_float threshold, map_of units ''b'') of
                 (Some threshold_value, Some u) \<Rightarrow> Some (threshold_value * u)
               | _ \<Rightarrow> None)))"

section \<open>Deleter\<close>

text \<open>
  The platform (\<open>os.name\<close>) and \<open>os.path.abspath\<close> are given by \<open>sys_env\<close>.
  What \<open>delete_item\<close> meets outside itself is given by an environment: what the path is,
  whether the removal (\<open>os.remove\<close> or \<open>shutil.rmtree\<close>) raises, whether the process is an
  administrator and what the user answers to the retry prompt. What it does to the
  outside is a list of effects, and it ends by returning a boolean, by \<open>sys.exit\<close> or by
  an exception that escapes. Printed messages are kept without the console markup and
  without the text of the exception.
\<close>

datatype py_exception = PermissionError | FileNotFoundError | AttributeError | OtherError string




record sys_env =
  platform :: os
  abspath :: "string \<Rightarrow> string"


text \<open>\<open>get_long_path_name\<close>, with \<open>os.path.abspath\<close> as a parameter.\<close>

definition get_long_path_name :: "(string \<Rightarrow> string) \<Rightarrow> string \<Rightarrow> string" where
  "get_long_path_name absp path =
     (if startswith path ext_namespace_prefix then path
      else (let abs_path = absp path in
            if length abs_path \<ge> 260 then ext_namespace_prefix @ abs_path else abs_path))"



section \<open>Scanner\<close>

text \<open>
  The file system is a tree. Every object carries what \<open>stat\<close> on it does: it succeeds
  (with the hidden bit of \<open>st_file_attributes\<close>), it raises \<open>PermissionError\<close> or
  \<open>FileNotFoundError\<close>, or it raises another exception. A directory lists its children
  by name in enumeration order; \<open>Special\<close> is whatever is no regular file and on which
  \<open>os.scandir\<close> raises (an unreadable or vanished directory, a device, a broken link).
\<close>

datatype stat_result = Stat bool | StatDenied | StatError

datatype node =
    File stat_result int
  | Dir stat_result "(string \<times> node) list"
  | Special stat_result

fun node_stat :: "node \<Rightarrow> stat_result" where
  "node_stat (File st sz) = st"
| "node_stat (Dir st children) = st"
| "node_stat (Special st) = st"

text \<open>
  \<open>entry.path\<close> is \<open>os.path.join(path, entry.name)\<close> for the scanned directory \<open>path\<close>,
  which is an absolute path: the separator is added unless \<open>path\<close> ends with one.
\<close>

definition path_join :: "os \<Rightarrow> string \<Rightarrow> string \<Rightarrow> string" where
  "path_join os path name =
     (if path = [] then name
      else if last path = sep os \<or> (os = Nt \<and> last path = slash) then path @ name
      else path @ [sep os] @ name)"

text \<open>
  \<open>is_hidden\<close> of a directory entry: the attribute bit of \<open>entry.stat()\<close> on Windows,
  \<open>entry.name.startswith('.')\<close> elsewhere (where no \<open>stat\<close> is made for it).
\<close>

definition entry_is_hidden :: "os \<Rightarrow> string \<Rightarrow> node \<Rightarrow> stat_result" where
  "entry_is_hidden os name child =
     (case os of Nt \<Rightarrow> node_stat child | Posix \<Rightarrow> Stat (startswith name ''.''))"

text \<open>
  The first loop of \<open>scan_directory\<close>, over \<open>os.scandir(path)\<close>, with its three variables
  \<open>results\<close>, \<open>total_size\<close> and \<open>items_to_scan\<close>. \<open>PermissionError\<close> and
  \<open>FileNotFoundError\<close> on an entry skip it (\<open>continue\<close>); any other exception leaves the
  loop and the function through the outer handler, which returns \<open>results\<close> as it is.
\<close>

datatype listing =
    Listed "entry list" int "(string \<times> node) list"
  | Aborted "entry list"

fun scan_entries ::
  "os \<Rightarrow> string \<Rightarrow> bool \<Rightarrow> int \<Rightarrow> (string \<times> node) list \<Rightarrow>
   entry list \<Rightarrow> int \<Rightarrow> (string \<times> node) list \<Rightarrow> listing" where
  "scan_entries os path only_hidden threshold [] results total_size items_to_scan =
     Listed results total_size items_to_scan"
| "scan_entries os path only_hidden threshold ((name, child) # rest) results total_size items_to_scan =
     (case entry_is_hidden os name child of
        StatDenied \<Rightarrow>
          scan_entries os path only_hidden threshold rest results total_size items_to_scan
      | StatError \<Rightarrow> Aborted results
      | Stat is_hidden \<Rightarrow>
          if only_hidden \<and> \<not> is_hidden then
            scan_entries os path only_hidden threshold rest results total_size items_to_scan
          else
            (case child of
               File st file_size \<Rightarrow>
                 (case st of
                    StatDenied \<Rightarrow>
                      scan_entries os path only_hidden threshold rest results total_size items_to_scan
                  | StatError \<Rightarrow> Aborted results
                  | Stat h \<Rightarrow>
                      scan_entries os path only_hidden threshold rest
                        (if file_size \<ge> threshold
                         then results @ [mk_entry os (path_join os path name) file_size True]
                         else results)
                        (total_size + file_size) items_to_scan)
             | Dir st children \<Rightarrow>
                 scan_entries os path only_hidden threshold rest results total_size
                   (items_to_scan @ [(path_join os path name, child)])
             | Special st \<Rightarrow>
                 scan_entries os path only_hidden threshold rest results total_size
                   (items_to_scan @ [(path_join os path name, child)])))"

text \<open>The branch of \<open>scan_directory\<close> for a path that is a regular file.\<close>

definition scan_file :: "os \<Rightarrow> string \<Rightarrow> stat_result \<Rightarrow> int \<Rightarrow> bool \<Rightarrow> int \<Rightarrow> entry list" where
  "scan_file os path st sz only_hidden threshold =
     (case st of
        Stat h \<Rightarrow>
          if sz \<ge> threshold then
            (let is_hidden = (case os of Nt \<Rightarrow> h | Posix \<Rightarrow> False) in
             if \<not> only_hidden \<or> is_hidden then [mk_entry os path sz True] else [])
          else []
      | StatDenied \<Rightarrow> []
      | StatError \<Rightarrow> [])"

text \<open>
  One iteration of the second loop, given the result of the recursive call: the
  sub-results are appended, the directory itself is appended when the sum of the sizes in
  the sub-results reaches the threshold, and that sum is added to \<open>total_size\<close>.
\<close>

definition add_subdir ::
  "os \<Rightarrow> int \<Rightarrow> string \<Rightarrow> entry list \<Rightarrow> entry list \<times> int \<Rightarrow> entry list \<times> int" where
  "add_subdir os threshold item_path sub_results acc =
     (let sub_size = sum_list (map e_size sub_results);
          results = fst acc @ sub_results;
          results = (if sub_size \<ge> threshold
                     then results @ [mk_entry os item_path sub_size False]
                     else results)
      in (results, snd acc + sub_size))"

text \<open>
  \<open>scan_directory\<close>. The second loop runs over \<open>items_to_scan\<close> with the variables
  \<open>results\<close> and \<open>total_size\<close>; the function returns \<open>results\<close> only.
\<close>

function scan_directory :: "sys_env \<Rightarrow> string \<Rightarrow> node \<Rightarrow> bool \<Rightarrow> int \<Rightarrow> entry list" where
  "scan_directory env path0 node only_hidden threshold =
     (let path = get_long_path_name (abspath env) path0 in
      case node of
        File st sz \<Rightarrow> scan_file (platform env) path st sz only_hidden threshold
      | Special st \<Rightarrow> []
      | Dir st children \<Rightarrow>
          (case scan_entries (platform env) path only_hidden threshold children [] 0 [] of
             Aborted results \<Rightarrow> results
           | Listed results total_size items_to_scan \<Rightarrow>
               fst (foldl (\<lambda>acc item.
                      add_subdir (platform env) threshold (fst item)
                        (scan_directory env (fst item) (snd item) only_hidden threshold)
                        acc)
                    (results, total_size) items_to_scan)))"
  by pat_completeness auto

text \<open>
  Termination: every item of \<open>items_to_scan\<close> is a child of the scanned directory, so the
  recursive calls descend in the tree.
\<close>

lemma scan_entries_step:
  "(\<exists>r'. scan_entries os path oh th ((name, child) # rest) r t i = Aborted r') \<or>
   (\<exists>r2 t2. scan_entries os path oh th ((name, child) # rest) r t i =
        scan_entries os path oh th rest r2 t2 i) \<or>
   (\<exists>r2 t2. scan_entries os path oh th ((name, child) # rest) r t i =
        scan_entries os path oh th rest r2 t2 (i @ [(path_join os path name, child)]))"
  by (simp split: stat_result.split node.split) blast

lemma scan_entries_items:
  "scan_entries os path oh th ents results tot items = Listed results' tot' items' \<Longrightarrow>
   snd ` set items' \<subseteq> snd ` set items \<union> snd ` set ents"
proof (induction ents arbitrary: results tot items)
  case Nil
  then show ?case by auto
next
  case (Cons e ents)
  obtain name child where e: "e = (name, child)" by (cases e)
  from scan_entries_step[of os path oh th name child ents results tot items] Cons.prems
  consider
    (same) r2 t2 where
      "scan_entries os path oh th ents r2 t2 items = Listed results' tot' items'"
  | (more) r2 t2 where
      "scan_entries os path oh th ents r2 t2 (items @ [(path_join os path name, child)]) =
       Listed results' tot' items'"
    unfolding e by auto
  then show ?case
  proof cases
    case same
    from Cons.IH[OF same] show ?thesis by auto
  next
    case more
    from Cons.IH[OF more] show ?thesis unfolding e by auto
  qed
qed

lemma child_size: "(name, child) \<in> set children \<Longrightarrow> size child < size (Dir st children)"
  by (induction children) auto

lemma item_size:
  assumes "scan_entries os path oh th children [] 0 [] = Listed results tot items"
    and "item \<in> set items"
  shows "size (snd item) < size (Dir st children)"
proof -
  from scan_entries_items[OF assms(1)] have "snd ` set items \<subseteq> snd ` set children"
    by simp
  with assms(2) have "snd item \<in> snd ` set children" by auto
  then obtain name where "(name, snd item) \<in> set children" by auto
  from child_size[OF this] show ?thesis .
qed

termination scan_directory
proof (relation "measure (\<lambda>(env, path0, node, only_hidden, threshold). size node)", goal_cases)
  case 1
  then show ?case by simp
next
  case (2 env path0 node only_hidden threshold path st children results total_size items_to_scan acc item)
  from item_size[OF 2(3) 2(4)] 2(2) show ?case by simp
qed

declare scan_directory.simps [simp del]

section \<open>The scanner of \<open>analyze\<close>: \<open>scan_with_progress\<close>\<close>

text \<open>
  \<open>scan_with_progress\<close> is the copy of \<open>scan_directory\<close> that \<open>analyze\<close> runs. It differs
  by the calls of \<open>update_progress\<close>, which add one to the counter \<open>items_scanned\<close>: once
  for a path that is a file, and once for every entry that \<open>os.scandir\<close> yields. The
  counter is threaded through as state.
\<close>

fun scan_entries_progress ::
  "os \<Rightarrow> string \<Rightarrow> bool \<Rightarrow> int \<Rightarrow> (string \<times> node) list \<Rightarrow>
   entry list \<Rightarrow> int \<Rightarrow> (string \<times> node) list \<Rightarrow> nat \<Rightarrow> listing \<times> nat" where
  "scan_entries_progress os path only_hidden threshold [] results total_size items_to_scan n =
     (Listed results total_size items_to_scan, n)"
| "scan_entries_progress os path only_hidden threshold ((name, child) # rest)
       results total_size items_to_scan n =
     (case entry_is_hidden os name child of
        StatDenied \<Rightarrow>
          scan_entries_progress os path only_hidden threshold rest
            results total_size items_to_scan (n + 1)
      | StatError \<Rightarrow> (Aborted results, n + 1)
      | Stat is_hidden \<Rightarrow>
          if only_hidden \<and> \<not> is_hidden then
            scan_entries_progress os path only_hidden threshold rest
              results total_size items_to_scan (n + 1)
          else
            (case child of
               File st file_size \<Rightarrow>
                 (case st of
                    StatDenied \<Rightarrow>
                      scan_entries_progress os path only_hidden threshold rest
                        results total_size items_to_scan (n + 1)
                  | StatError \<Rightarrow> (Aborted results, n + 1)
                  | Stat h \<Rightarrow>
                      scan_entries_progress os path only_hidden threshold rest
                        (if file_size \<ge> threshold
                         then results @ [mk_entry os (path_join os path name) file_size True]
                         else results)
                        (total_size + file_size) items_to_scan (n + 1))
             | Dir st children \<Rightarrow>
                 scan_entries_progress os path only_hidden threshold rest results total_size
                   (items_to_scan @ [(path_join os path name, child)]) (n + 1)
             | Special st \<Rightarrow>
                 scan_entries_progress os path only_hidden threshold rest results total_size
                   (items_to_scan @ [(path_join os path name, child)]) (n + 1)))"

lemma scan_entries_progress_fst:
  "fst (scan_entries_progress os path oh th ents results tot items n) =
   scan_entries os path oh th ents results tot items"
  by (induction ents arbitrary: results tot items n)
     (auto split: stat_result.split node.split)

function scan_with_progress ::
  "sys_env \<Rightarrow> string \<Rightarrow> node \<Rightarrow> bool \<Rightarrow> int \<Rightarrow> nat \<Rightarrow> entry list \<times> nat" where
  "scan_with_progress env path0 node only_hidden threshold items_scanned =
     (let path = get_long_path_name (abspath env) path0 in
      case node of
        File st sz \<Rightarrow>
          (scan_file (platform env) path st sz only_hidden threshold, items_scanned + 1)
      | Special st \<Rightarrow> ([], items_scanned)
      | Dir st children \<Rightarrow>
          (case scan_entries_progress (platform env) path only_hidden threshold
                  children [] 0 [] items_scanned of
             (Aborted results, n) \<Rightarrow> (results, n)
           | (Listed results total_size items_to_scan, n) \<Rightarrow>
               (let final =
                  foldl (\<lambda>state item.
                      let sub = scan_with_progress env (fst item) (snd item)
                                  only_hidden threshold (snd state)
                      in (add_subdir (platform env) threshold (fst item) (fst sub) (fst state),
                          snd sub))
                    ((results, total_size), n) items_to_scan
                in (fst (fst final), snd final))))"
  by pat_completeness auto

lemma item_size_progress:
  assumes "scan_entries_progress os path oh th children [] 0 [] n = (Listed results tot items, n')"
    and "item \<in> set items"
  shows "size (snd item) < size (Dir st children)"
proof -
  from assms(1) have "scan_entries os path oh th children [] 0 [] = Listed results tot items"
    using scan_entries_progress_fst[of os path oh th children "[]" 0 "[]" n] by simp
  from item_size[OF this assms(2)] show ?thesis .
qed

termination scan_with_progress
proof (relation "measure (\<lambda>(env, path0, node, only_hidden, threshold, n). size node)", goal_cases)
  case 1
  then show ?case by simp
next
  case 2
  from item_size_progress[OF 2(3)[symmetric, unfolded 2(4)] 2(5)] 2(2)
  show ?case by simp
qed

declare scan_with_progress.simps [simp del]

section \<open>Example inputs\<close>

text \<open>An absolute Windows path on drive \<open>C:\<close>, with backslashes, from its segments.\<close>

definition win_path :: "string list \<Rightarrow> string" where
  "win_path segs = ''C:'' @ concat (map (\<lambda>s. bslash # s) segs)"

text \<open>A platform off Windows where \<open>os.path.abspath\<close> returns its (absolute) argument.\<close>

definition posix_env :: sys_env where
  "posix_env = \<lparr>platform = Posix, abspath = (\<lambda>p. p)\<rparr>"

text \<open>A root directory with one subdirectory \<open>D\<close> holding the files \<open>a\<close> (10 bytes) and
  \<open>b\<close> (100 bytes).\<close>

definition tree_two_files :: node where
  "tree_two_files =
     Dir (Stat False)
       [(''D'', Dir (Stat False) [(''a'', File (Stat False) 10), (''b'', File (Stat False) 100)])]"

text \<open>A root directory with \<open>D\<close>, which holds \<open>E\<close>, which holds the file \<open>f\<close> (100 bytes).\<close>

definition tree_nested :: node where
  "tree_nested =
     Dir (Stat False)
       [(''D'', Dir (Stat False) [(''E'', Dir (Stat False) [(''f'', File (Stat False) 100)])])]"

text \<open>Scan results in which the path \<open>/r/a\<close> occurs twice with the same size.\<close>

definition ex_results :: "entry list" where
  "ex_results =
     [(''/r/a'', 5, True, False, ''Unknown''),
      (''/r/b'', 9, False, False, ''Unknown''),
      (''/r/c'', 5, False, False, ''Unknown''),
      (''/r/a'', 5, False, False, ''Unknown'')]"



section \<open>Auxiliary notions for the proofs\<close>

text \<open>The invariant of \<open>path_dict\<close>: keys are distinct and every value is filed under its
  own path.\<close>

definition keyed :: "(string \<times> entry) list \<Rightarrow> bool" where
  "keyed d = (distinct (map fst d) \<and> list_all (\<lambda>kv. e_path (snd kv) = fst kv) d)"

text \<open>What the dict holds under one path after one more entry of that path.\<close>

fun keep :: "entry option \<Rightarrow> entry \<Rightarrow> entry option" where
  "keep None r = Some r"
| "keep (Some kept) r = (if e_size r > e_size kept then Some r else Some kept)"

text \<open>\<open>v\<close> is the first of the largest entries of \<open>xs\<close>.\<close>

definition first_largest :: "entry list \<Rightarrow> entry \<Rightarrow> bool" where
  "first_largest xs v =
     (v \<in> set xs \<and> list_all (\<lambda>x. e_size x \<le> e_size v) xs \<and>
      find (\<lambda>x. e_size x = e_size v) xs = Some v)"

text \<open>A directory entry for which \<open>is_hidden\<close> evaluates to \<open>False\<close>.\<close>

definition not_hidden :: "os \<Rightarrow> string \<times> node \<Rightarrow> bool" where
  "not_hidden os e = (entry_is_hidden os (fst e) (snd e) = Stat False)"

section \<open>Properties of the classifier\<close>

lemma match_space_hogs_True:
  "match_space_hogs name tbl = (True, reason) \<Longrightarrow>
   str_in ''safe'' (lower reason) \<and>
   (\<exists>pattern. (pattern, reason) \<in> set tbl \<and> (name = pattern \<or> lower name = lower pattern))"
  by (induction name tbl rule: match_space_hogs.induct) (auto split: if_splits)

text \<open>
  Claim C10. Whenever \<open>is_safe_to_delete\<close> answers \<open>True\<close>, the reason it returns contains
  \<open>safe\<close> (case-insensitively), the path is not protected, the reason is neither
  \<open>System protected\<close> nor \<open>Unknown\<close>, and the reason is the description of a
  \<open>SPACE_HOGS\<close> entry whose name matches the path's name: a true verdict comes from the
  table branch only.
\<close>

theorem safe_verdict_only_from_safe_description:
  assumes "fst (is_safe_to_delete os p)"
  shows "str_in ''safe'' (lower (snd (is_safe_to_delete os p))) \<and>
         \<not> is_path_protected os p \<and>
         snd (is_safe_to_delete os p) \<noteq> ''System protected'' \<and>
         snd (is_safe_to_delete os p) \<noteq> ''Unknown'' \<and>
         (\<exists>pattern. (pattern, snd (is_safe_to_delete os p)) \<in> set SPACE_HOGS \<and>
            (path_name os p = pattern \<or> lower (path_name os p) = lower pattern))"
proof -
  from assms have np: "\<not> is_path_protected os p"
    by (auto simp: is_safe_to_delete_def split: if_splits)
  then have "is_safe_to_delete os p = match_space_hogs (path_name os p) SPACE_HOGS"
    by (simp add: is_safe_to_delete_def)
  with assms have
    "match_space_hogs (path_name os p) SPACE_HOGS = (True, snd (is_safe_to_delete os p))"
    by (metis prod.collapse)
  from match_space_hogs_True[OF this] have
    safe: "str_in ''safe'' (lower (snd (is_safe_to_delete os p)))"
    and tbl: "\<exists>pattern. (pattern, snd (is_safe_to_delete os p)) \<in> set SPACE_HOGS \<and>
            (path_name os p = pattern \<or> lower (path_name os p) = lower pattern)"
    by auto
  have n1: "\<not> str_in ''safe'' (lower ''System protected'')" by code_simp
  have n2: "\<not> str_in ''safe'' (lower ''Unknown'')" by code_simp
  from safe n1 n2 have "snd (is_safe_to_delete os p) \<noteq> ''System protected''"
    "snd (is_safe_to_delete os p) \<noteq> ''Unknown''" by auto
  with np safe tbl show ?thesis by simp
qed

theorem safe_verdict_only_from_safe_description_witness:
  "fst (is_safe_to_delete Nt (win_path [''Users'', ''x'', ''temp''])) \<and>
   str_in ''safe'' (lower (snd (is_safe_to_delete Nt (win_path [''Users'', ''x'', ''temp''])))) \<and>
   \<not> is_path_protected Nt (win_path [''Users'', ''x'', ''temp'']) \<and>
   snd (is_safe_to_delete Nt (win_path [''Users'', ''x'', ''temp''])) \<noteq> ''Unknown''"
proof -
  have h: "fst (is_safe_to_delete Nt (win_path [''Users'', ''x'', ''temp'']))"
    by code_simp
  from safe_verdict_only_from_safe_description[OF h] h show ?thesis
    by blast
qed

text \<open>
  Claim C2, at a failing input. \<open>is_path_protected\<close> tests \<open>part in PROTECTED_FOLDERS\<close>,
  which is case-sensitive. The path \<open>C:\windows\temp\<close> has the segment \<open>windows\<close>, equal
  to the protected name \<open>Windows\<close> up to case, and is classified safe to delete through
  the \<open>SPACE_HOGS\<close> entry \<open>temp\<close>; the same holds off Windows for \<open>/mnt/c/windows/temp\<close>.
  With the segment spelled \<open>Windows\<close> the protected check does come first.
\<close>

theorem lowercase_protected_segment_classified_safe:
  "is_safe_to_delete Nt (win_path [''windows'', ''temp'']) =
     (True, ''Temporary files (safe to delete)'') \<and>
   path_parts Nt (win_path [''windows'', ''temp'']) = [''C:'' @ [bslash], ''windows'', ''temp''] \<and>
   is_safe_to_delete Posix ''/mnt/c/windows/temp'' =
     (True, ''Temporary files (safe to delete)'') \<and>
   path_parts Posix ''/mnt/c/windows/temp'' = [''/'', ''mnt'', ''c'', ''windows'', ''temp''] \<and>
   lower ''windows'' = lower ''Windows'' \<and> List.member PROTECTED_FOLDERS ''Windows'' \<and>
   is_safe_to_delete Nt (win_path [''Windows'', ''temp'']) = (False, ''System protected'')"
  by code_simp

text \<open>
  Claim C3, at a failing input. On the same paths the two protection checks disagree:
  \<open>is_path_protected\<close> (case-sensitive) answers \<open>False\<close> and \<open>is_protected\<close> (which
  lower-cases both sides) answers \<open>True\<close>. With the segment spelled \<open>Windows\<close> both
  answer \<open>True\<close>.
\<close>

theorem protected_checks_disagree_on_case:
  "is_path_protected Nt (win_path [''windows'', ''temp'']) = False \<and>
   is_protected (win_path [''windows'', ''temp'']) = True \<and>
   is_path_protected Posix ''/mnt/c/windows/temp'' = False \<and>
   is_protected ''/mnt/c/windows/temp'' = True \<and>
   is_path_protected Nt (win_path [''Windows'', ''temp'']) = True \<and>
   is_protected (win_path [''Windows'', ''temp'']) = True"
  by code_simp

section \<open>Properties of the threshold parser\<close>

text \<open>
  Claim C9. The threshold string \<open>500KB\<close> parses to 512000 bytes and \<open>2GB\<close> to
  2147483648 bytes.
\<close>

theorem parse_threshold_500KB_2GB:
  "parse_threshold ''500KB'' = Some 512000 \<and> parse_threshold ''2GB'' = Some 2147483648"
  by code_simp

section \<open>Properties of the reconciler\<close>

lemma set_update_subset: "set (AList.update k v al) \<subseteq> insert (k, v) (set al)"
  by (induction al) auto

lemma keyed_update: "keyed d \<Longrightarrow> keyed (AList.update (e_path r) r d)"
  unfolding keyed_def list_all_iff
  using set_update_subset[of "e_path r" r d]
  by (auto simp: AList.distinct_update)

lemma keyed_step: "keyed d \<Longrightarrow> keyed (reconcile_step d r)"
  by (auto simp: reconcile_step_def keyed_update split: option.split)

lemma keyed_foldl: "keyed d \<Longrightarrow> keyed (foldl reconcile_step d rs)"
  by (induction rs arbitrary: d) (auto simp: keyed_step)

lemma keyed_path_dict_of: "keyed (path_dict_of rs)"
  unfolding path_dict_of_def by (rule keyed_foldl) (simp add: keyed_def)

lemma keyed_paths: "keyed d \<Longrightarrow> map e_path (map snd d) = map fst d"
  by (induction d) (auto simp: keyed_def)

text \<open>
  Claim C5. For every input sequence, no two entries of the reconciled result have the
  same path.
\<close>

theorem reconcile_paths_distinct: "distinct (map e_path (reconcile results))"
proof -
  have k: "keyed (path_dict_of results)" by (rule keyed_path_dict_of)
  from keyed_paths[OF k] have "map e_path (reconcile results) = map fst (path_dict_of results)"
    by (simp only: reconcile_def)
  with k show ?thesis by (simp only: keyed_def)
qed

lemma map_of_step:
  "map_of (reconcile_step d r) p = (if e_path r = p then keep (map_of d p) r else map_of d p)"
  by (auto simp: reconcile_step_def AList.update_conv' split: option.split)

lemma map_of_foldl:
  "map_of (foldl reconcile_step d rs) p =
   foldl keep (map_of d p) (filter (\<lambda>x. e_path x = p) rs)"
  by (induction rs arbitrary: d) (auto simp: map_of_step)

lemma find_append:
  "find P (xs @ ys) = (case find P xs of Some x \<Rightarrow> Some x | None \<Rightarrow> find P ys)"
  by (induction xs) auto

lemma find_filter: "find P (filter Q xs) = find (\<lambda>x. Q x \<and> P x) xs"
  by (induction xs) auto

lemma foldl_keep_first_largest:
  "(xs = [] \<and> foldl keep None xs = None) \<or>
   (\<exists>v. foldl keep None xs = Some v \<and> first_largest xs v)"
proof (induction xs rule: rev_induct)
  case Nil
  then show ?case by simp
next
  case (snoc e xs)
  show ?case
  proof (cases "xs = []")
    case True
    then show ?thesis by (simp add: first_largest_def)
  next
    case False
    with snoc obtain v where v: "foldl keep None xs = Some v" and fl: "first_largest xs v"
      by auto
    show ?thesis
    proof (cases "e_size e > e_size v")
      case True
      have "find (\<lambda>x. e_size x = e_size e) xs = None"
        using fl True by (auto simp: first_largest_def list_all_iff find_None_iff)
      with fl True have "first_largest (xs @ [e]) e"
        by (auto simp: first_largest_def list_all_iff find_append)
      with v True show ?thesis by simp
    next
      case False
      with fl have "first_largest (xs @ [e]) v"
        by (auto simp: first_largest_def list_all_iff find_append)
      with v False show ?thesis by simp
    qed
  qed
qed

lemma first_largest_unique:
  assumes "first_largest xs v" and "first_largest xs w"
  shows "v = w"
proof -
  from assms have "e_size v = e_size w"
    by (auto simp: first_largest_def list_all_iff intro: antisym)
  with assms show ?thesis by (simp add: first_largest_def)
qed

lemma in_reconcile_iff:
  "r \<in> set (reconcile rs) \<longleftrightarrow> map_of (path_dict_of rs) (e_path r) = Some r"
proof -
  have k: "keyed (path_dict_of rs)" by (rule keyed_path_dict_of)
  then have d: "distinct (map fst (path_dict_of rs))" by (simp add: keyed_def)
  show ?thesis
  proof
    assume "r \<in> set (reconcile rs)"
    then obtain key where kv: "(key, r) \<in> set (path_dict_of rs)"
      by (auto simp: reconcile_def)
    with k have "e_path r = key" by (auto simp: keyed_def list_all_iff)
    with kv d show "map_of (path_dict_of rs) (e_path r) = Some r" by simp
  next
    assume "map_of (path_dict_of rs) (e_path r) = Some r"
    then have "(e_path r, r) \<in> set (path_dict_of rs)" by (rule map_of_SomeD)
    then show "r \<in> set (reconcile rs)" by (force simp: reconcile_def)
  qed
qed

text \<open>
  Claim C4, as amended. Reconciliation groups the entries by exact path and keeps, for
  every path, the entry with the largest size; when several entries of a path share the
  largest size, the first of them in the input is kept (an entry replaces the kept one
  only when its size is strictly greater). So \<open>r\<close> is in the result exactly when it is an
  input entry, no input entry of its path is larger, and it is the first input entry with
  its path and size.
\<close>

theorem reconcile_keeps_first_largest:
  "r \<in> set (reconcile rs) \<longleftrightarrow>
     (r \<in> set rs \<and>
      (\<forall>x \<in> set rs. e_path x = e_path r \<longrightarrow> e_size x \<le> e_size r) \<and>
      find (\<lambda>x. e_path x = e_path r \<and> e_size x = e_size r) rs = Some r)"
proof -
  let ?grp = "filter (\<lambda>x. e_path x = e_path r) rs"
  have held: "map_of (path_dict_of rs) (e_path r) = foldl keep None ?grp"
    by (simp add: path_dict_of_def map_of_foldl)
  have spec: "first_largest ?grp r \<longleftrightarrow>
     (r \<in> set rs \<and>
      (\<forall>x \<in> set rs. e_path x = e_path r \<longrightarrow> e_size x \<le> e_size r) \<and>
      find (\<lambda>x. e_path x = e_path r \<and> e_size x = e_size r) rs = Some r)"
    by (auto simp: first_largest_def list_all_iff find_filter)
  have "foldl keep None ?grp = Some r \<longleftrightarrow> first_largest ?grp r"
  proof
    assume "foldl keep None ?grp = Some r"
    with foldl_keep_first_largest[of ?grp] show "first_largest ?grp r" by auto
  next
    assume b: "first_largest ?grp r"
    then have "?grp \<noteq> []" by (auto simp: first_largest_def)
    with foldl_keep_first_largest[of ?grp] obtain v where
      v: "foldl keep None ?grp = Some v" and fl: "first_largest ?grp v" by auto
    from first_largest_unique[OF fl b] v show "foldl keep None ?grp = Some r" by simp
  qed
  with held spec show ?thesis by (simp only: in_reconcile_iff)
qed

text \<open>
  The theorem at \<open>ex_results\<close>: of the two entries of \<open>/r/a\<close> with size 5, the first is
  kept and the last is not.
\<close>

theorem reconcile_keeps_first_largest_witness:
  "(''/r/a'', 5, True, False, ''Unknown'') \<in> set (reconcile ex_results) \<and>
   (''/r/a'', 5, False, False, ''Unknown'') \<notin> set (reconcile ex_results) \<and>
   find (\<lambda>x. e_path x = ''/r/a'' \<and> e_size x = 5) ex_results =
     Some (''/r/a'', 5, True, False, ''Unknown'')"
proof -
  let ?first = "(''/r/a'', 5, True, False, ''Unknown'') :: entry"
  let ?last = "(''/r/a'', 5, False, False, ''Unknown'') :: entry"
  have f: "find (\<lambda>x. e_path x = ''/r/a'' \<and> e_size x = 5) ex_results = Some ?first"
    by (simp add: ex_results_def e_path_def e_size_def)
  have p: "e_path ?first = ''/r/a''" "e_size ?first = 5" "e_path ?last = ''/r/a''" "e_size ?last = 5"
    by (simp_all add: e_path_def e_size_def)
  have m: "?first \<in> set ex_results"
    by (simp add: ex_results_def)
  have le: "\<forall>x \<in> set ex_results. e_path x = e_path ?first \<longrightarrow> e_size x \<le> e_size ?first"
    by (simp add: ex_results_def e_path_def e_size_def)
  from reconcile_keeps_first_largest[of ?first ex_results] m le f p
  have a: "?first \<in> set (reconcile ex_results)" by simp
  from reconcile_keeps_first_largest[of ?last ex_results] f p
  have b: "?last \<notin> set (reconcile ex_results)" by simp
  from a b f show ?thesis by blast
qed

text \<open>
  Claim C4 as stated fails: two entries with the same path and the same size, the last
  seen of which does not win.
\<close>

theorem reconcile_tie_keeps_first_seen:
  "reconcile [(''p'', 5, True, False, ''Unknown''), (''p'', 5, False, False, ''Unknown'')] =
     [(''p'', 5, True, False, ''Unknown'')]"
  by code_simp

section \<open>Properties of the ranking\<close>

lemma slice_to_take: "0 \<le> n \<Longrightarrow> slice_to n xs = take (nat n) xs"
  by (simp add: slice_to_def)

lemma slice_to_neg: "n < 0 \<Longrightarrow> slice_to n xs = take (length xs - nat (- n)) xs"
proof -
  assume "n < 0"
  then have "nat (int (length xs) + n) = length xs - nat (- n)" by linarith
  with \<open>n < 0\<close> show ?thesis by (simp add: slice_to_def)
qed

lemma sort_by_size_desc_sorted:
  "sorted_wrt (\<lambda>a b. e_size a \<ge> e_size b) (sort_by_size_desc rs)"
proof -
  have "sorted (map (\<lambda>x. - e_size x) (sort_key (\<lambda>x. - e_size x) rs))"
    by (rule sorted_sort_key)
  then show ?thesis
    by (simp add: sort_by_size_desc_def sorted_map)
qed

lemma sort_by_size_desc_stable:
  "filter (\<lambda>e. e_size e = k) (sort_by_size_desc rs) = filter (\<lambda>e. e_size e = k) rs"
proof -
  have "filter (\<lambda>y. - e_size y = - k) (sort_key (\<lambda>x. - e_size x) rs) =
        filter (\<lambda>y. - e_size y = - k) rs"
    by (rule sort_key_stable)
  then show ?thesis by (simp add: sort_by_size_desc_def)
qed

text \<open>
  Claim C6, as amended. The ranking is a stable sort of the reconciled entries,
  descending by size (it is sorted, a permutation, and keeps the order of entries of equal
  size), followed by the slice \<open>[:N]\<close>: for \<open>N \<ge> 0\<close> the first \<open>N\<close> entries, so the empty
  view for \<open>N = 0\<close> and the whole sorted sequence for \<open>N\<close> at least its length; for
  \<open>N < 0\<close> the sorted sequence without its last \<open>|N|\<close> entries.
\<close>

theorem ranking_stable_sort_and_slice:
  "sorted_wrt (\<lambda>a b. e_size a \<ge> e_size b) (sort_by_size_desc (reconcile results)) \<and>
   mset (sort_by_size_desc (reconcile results)) = mset (reconcile results) \<and>
   (\<forall>k. filter (\<lambda>e. e_size e = k) (sort_by_size_desc (reconcile results)) =
        filter (\<lambda>e. e_size e = k) (reconcile results)) \<and>
   (0 \<le> n \<longrightarrow> top_results n results = take (nat n) (sort_by_size_desc (reconcile results))) \<and>
   (n = 0 \<longrightarrow> top_results n results = []) \<and>
   (n \<ge> int (length (reconcile results)) \<longrightarrow>
      top_results n results = sort_by_size_desc (reconcile results)) \<and>
   (n < 0 \<longrightarrow> top_results n results =
      take (length (reconcile results) - nat (- n)) (sort_by_size_desc (reconcile results)))"
proof -
  let ?ranked = "sort_by_size_desc (reconcile results)"
  have len: "length ?ranked = length (reconcile results)"
    by (simp add: sort_by_size_desc_def)
  have a: "sorted_wrt (\<lambda>a b. e_size a \<ge> e_size b) ?ranked"
    by (rule sort_by_size_desc_sorted)
  have b: "mset ?ranked = mset (reconcile results)"
    by (simp add: sort_by_size_desc_def)
  have c: "\<forall>k. filter (\<lambda>e. e_size e = k) ?ranked =
               filter (\<lambda>e. e_size e = k) (reconcile results)"
    by (simp add: sort_by_size_desc_stable)
  have d: "0 \<le> n \<longrightarrow> top_results n results = take (nat n) ?ranked"
    by (simp add: top_results_def slice_to_take)
  have e: "n = 0 \<longrightarrow> top_results n results = []"
    by (simp add: top_results_def slice_to_take)
  have f: "n \<ge> int (length (reconcile results)) \<longrightarrow> top_results n results = ?ranked"
    using len by (auto simp: top_results_def slice_to_take)
  have g: "n < 0 \<longrightarrow> top_results n results =
      take (length (reconcile results) - nat (- n)) ?ranked"
    using len by (auto simp: top_results_def slice_to_neg)
  from a b c d e f g show ?thesis by blast
qed

text \<open>The theorem at \<open>ex_results\<close> (three entries after reconciliation), for \<open>N\<close> = 0, 7, -1.\<close>

theorem ranking_stable_sort_and_slice_witness:
  "top_results 0 ex_results = [] \<and>
   top_results 7 ex_results = sort_by_size_desc (reconcile ex_results) \<and>
   top_results (-1) ex_results = take 2 (sort_by_size_desc (reconcile ex_results)) \<and>
   length (reconcile ex_results) = 3"
proof -
  have l: "length (reconcile ex_results) = 3" by code_simp
  have h0: "(0::int) = 0" by simp
  have h7: "7 \<ge> int (length (reconcile ex_results))" using l by simp
  have hm: "(-1::int) < 0" by simp
  from ranking_stable_sort_and_slice[of ex_results 0] h0
  have z: "top_results 0 ex_results = []" by blast
  from ranking_stable_sort_and_slice[of ex_results 7] h7
  have w: "top_results 7 ex_results = sort_by_size_desc (reconcile ex_results)" by blast
  from ranking_stable_sort_and_slice[of ex_results "-1"] hm
  have "top_results (-1) ex_results =
     take (length (reconcile ex_results) - nat (- (-1))) (sort_by_size_desc (reconcile ex_results))"
    by blast
  with l have m: "top_results (-1) ex_results = take 2 (sort_by_size_desc (reconcile ex_results))"
    by simp
  from l z w m show ?thesis by blast
qed

text \<open>
  Claim C6 as stated fails for a negative \<open>N\<close>: with \<open>N = -1\<close> the view of \<open>ex_results\<close>
  holds two entries, it is not empty.
\<close>

theorem ranking_negative_top_not_empty:
  "top_results (-1) ex_results =
     [(''/r/b'', 9, False, False, ''Unknown''), (''/r/a'', 5, True, False, ''Unknown'')]"
  by code_simp

section \<open>Properties of the scanner\<close>

text \<open>The defining equation of \<open>scan_directory\<close>, by the kind of the scanned object.\<close>

lemma scan_directory_File:
  "scan_directory env p (File st sz) oh th =
     scan_file (platform env) (get_long_path_name (abspath env) p) st sz oh th"
  by (subst scan_directory.simps) simp

lemma scan_directory_Special: "scan_directory env p (Special st) oh th = []"
  by (subst scan_directory.simps) simp

lemma scan_directory_Dir:
  "scan_directory env p (Dir st children) oh th =
     (case scan_entries (platform env) (get_long_path_name (abspath env) p) oh th children [] 0 [] of
        Aborted results \<Rightarrow> results
      | Listed results total_size items_to_scan \<Rightarrow>
          fst (foldl (\<lambda>acc item.
                 add_subdir (platform env) th (fst item)
                   (scan_directory env (fst item) (snd item) oh th) acc)
               (results, total_size) items_to_scan))"
  by (subst scan_directory.simps) simp

lemma scan_with_progress_File:
  "scan_with_progress env p (File st sz) oh th n =
     (scan_file (platform env) (get_long_path_name (abspath env) p) st sz oh th, n + 1)"
  by (subst scan_with_progress.simps) simp

lemma scan_with_progress_Special: "scan_with_progress env p (Special st) oh th n = ([], n)"
  by (subst scan_with_progress.simps) simp

lemma scan_with_progress_Dir:
  "scan_with_progress env p (Dir st children) oh th n =
     (case scan_entries_progress (platform env) (get_long_path_name (abspath env) p) oh th
             children [] 0 [] n of
        (Aborted results, m) \<Rightarrow> (results, m)
      | (Listed results total_size items_to_scan, m) \<Rightarrow>
          (let final =
             foldl (\<lambda>state item.
                 let sub = scan_with_progress env (fst item) (snd item) oh th (snd state)
                 in (add_subdir (platform env) th (fst item) (fst sub) (fst state), snd sub))
               ((results, total_size), m) items_to_scan
           in (fst (fst final), snd final)))"
  by (subst scan_with_progress.simps) (simp add: Let_def)

text \<open>\<open>scan_with_progress\<close> returns the results of \<open>scan_directory\<close>: the counter is the
  only difference.\<close>

lemma foldl_progress_fst:
  assumes "\<And>item n. item \<in> set items \<Longrightarrow> fst (swp item n) = sd item"
  shows "fst (foldl (\<lambda>state item. let sub = swp item (snd state)
                                    in (g item (fst sub) (fst state), snd sub)) (acc, n) items) =
         foldl (\<lambda>acc item. g item (sd item) acc) acc items"
  using assms by (induction items arbitrary: acc n) (auto simp: Let_def)

lemma scan_with_progress_results:
  "fst (scan_with_progress env p node oh th n) = scan_directory env p node oh th"
proof (induction env p node oh th n rule: scan_with_progress.induct)
  case (1 env path0 node only_hidden threshold items_scanned)
  show ?case
  proof (cases node)
    case (File st sz)
    then show ?thesis
      by (simp add: scan_with_progress_File scan_directory_File)
  next
    case (Special st)
    then show ?thesis
      by (simp add: scan_with_progress_Special scan_directory_Special)
  next
    case (Dir st children)
    let ?path = "get_long_path_name (abspath env) path0"
    obtain l m where pr: "scan_entries_progress (platform env) ?path only_hidden threshold
        children [] 0 [] items_scanned = (l, m)"
      by (cases "scan_entries_progress (platform env) ?path only_hidden threshold
        children [] 0 [] items_scanned")
    then have se: "scan_entries (platform env) ?path only_hidden threshold children [] 0 [] = l"
      using scan_entries_progress_fst[of "platform env" ?path only_hidden threshold children
          "[]" 0 "[]" items_scanned] by simp
    show ?thesis
    proof (cases l)
      case (Aborted results)
      with Dir pr se show ?thesis
        by (simp add: scan_with_progress_Dir scan_directory_Dir)
    next
      case (Listed results total_size items_to_scan)
      have ih: "fst (scan_with_progress env (fst item) (snd item) only_hidden threshold k) =
          scan_directory env (fst item) (snd item) only_hidden threshold"
        if "item \<in> set items_to_scan" for item k
        using "1.IH"[OF refl Dir pr[symmetric] Listed that, of "(([], 0), k)"] by simp
      from foldl_progress_fst[of items_to_scan
          "\<lambda>item k. scan_with_progress env (fst item) (snd item) only_hidden threshold k"
          "\<lambda>item. scan_directory env (fst item) (snd item) only_hidden threshold"
          "\<lambda>item sub acc. add_subdir (platform env) threshold (fst item) sub acc", OF ih]
      show ?thesis using Dir pr se Listed
        by (simp add: scan_with_progress_Dir scan_directory_Dir Let_def)
    qed
  qed
qed

lemma scan_entries_hidden_only:
  "scan_entries os path True th ents r t i =
   scan_entries os path True th (filter (\<lambda>e. \<not> not_hidden os e) ents) r t i"
proof (induction ents arbitrary: r t i)
  case Nil
  then show ?case by simp
next
  case (Cons e ents)
  obtain name child where e: "e = (name, child)" by (cases e)
  show ?case
  proof (cases "not_hidden os e")
    case True
    then show ?thesis using Cons.IH unfolding e by (simp add: not_hidden_def)
  next
    case False
    then show ?thesis using Cons.IH unfolding e
      by (simp add: not_hidden_def split: stat_result.split node.split)
  qed
qed

text \<open>
  Claim C7. With \<open>only_hidden\<close> set, the children for which \<open>is_hidden\<close> is false play no
  part in the scan of a directory: the first loop ends with the same \<open>results\<close>, the same
  \<open>total_size\<close> and the same \<open>items_to_scan\<close> as on the listing without them (they add no
  bytes, they are not emitted, and they are not queued for recursion), and so
  \<open>scan_directory\<close> and \<open>scan_with_progress\<close> return the same results as on the directory
  without them, whatever lies beneath them.
\<close>

theorem hidden_only_prunes_non_hidden_children:
  "scan_entries os path True th ents r t i =
     scan_entries os path True th (filter (\<lambda>e. \<not> not_hidden os e) ents) r t i \<and>
   scan_directory env p (Dir st ents) True th =
     scan_directory env p (Dir st (filter (\<lambda>e. \<not> not_hidden (platform env) e) ents)) True th \<and>
   fst (scan_with_progress env p (Dir st ents) True th n) =
     fst (scan_with_progress env p
            (Dir st (filter (\<lambda>e. \<not> not_hidden (platform env) e) ents)) True th n)"
proof -
  have "scan_directory env p (Dir st ents) True th =
     scan_directory env p (Dir st (filter (\<lambda>e. \<not> not_hidden (platform env) e) ents)) True th"
    by (simp add: scan_directory_Dir scan_entries_hidden_only[of "platform env" _ th ents])
  with scan_entries_hidden_only show ?thesis
    by (simp only: scan_with_progress_results)
qed

text \<open>Evaluation of the scanner on the example trees.\<close>

lemma ex_long_paths:
  "get_long_path_name (\<lambda>p. p) ''/r'' = ''/r''"
  "get_long_path_name (\<lambda>p. p) ''/r/D'' = ''/r/D''"
  "get_long_path_name (\<lambda>p. p) ''/r/D/E'' = ''/r/D/E''"
  by code_simp+

lemma ex_joins:
  "path_join Posix ''/r'' ''D'' = ''/r/D''"
  "path_join Posix ''/r/D'' ''a'' = ''/r/D/a''"
  "path_join Posix ''/r/D'' ''b'' = ''/r/D/b''"
  "path_join Posix ''/r/D'' ''E'' = ''/r/D/E''"
  "path_join Posix ''/r/D/E'' ''f'' = ''/r/D/E/f''"
  by code_simp+

lemma ex_hidden:
  "entry_is_hidden Posix ''D'' n = Stat False"
  "entry_is_hidden Posix ''E'' n = Stat False"
  "entry_is_hidden Posix ''a'' n = Stat False"
  "entry_is_hidden Posix ''b'' n = Stat False"
  "entry_is_hidden Posix ''f'' n = Stat False"
  by (simp_all add: entry_is_hidden_def startswith_def)

lemma ex_entries:
  "mk_entry Posix ''/r/D'' sz f = (''/r/D'', sz, f, False, ''Unknown'')"
  "mk_entry Posix ''/r/D/a'' sz f = (''/r/D/a'', sz, f, False, ''Unknown'')"
  "mk_entry Posix ''/r/D/b'' sz f = (''/r/D/b'', sz, f, False, ''Unknown'')"
  "mk_entry Posix ''/r/D/E'' sz f = (''/r/D/E'', sz, f, False, ''Unknown'')"
  "mk_entry Posix ''/r/D/E/f'' sz f = (''/r/D/E/f'', sz, f, False, ''Unknown'')"
proof -
  have "is_safe_to_delete Posix ''/r/D'' = (False, ''Unknown'')" by code_simp
  then show "mk_entry Posix ''/r/D'' sz f = (''/r/D'', sz, f, False, ''Unknown'')"
    by (simp add: mk_entry_def)
  have "is_safe_to_delete Posix ''/r/D/a'' = (False, ''Unknown'')" by code_simp
  then show "mk_entry Posix ''/r/D/a'' sz f = (''/r/D/a'', sz, f, False, ''Unknown'')"
    by (simp add: mk_entry_def)
  have "is_safe_to_delete Posix ''/r/D/b'' = (False, ''Unknown'')" by code_simp
  then show "mk_entry Posix ''/r/D/b'' sz f = (''/r/D/b'', sz, f, False, ''Unknown'')"
    by (simp add: mk_entry_def)
  have "is_safe_to_delete Posix ''/r/D/E'' = (False, ''Unknown'')" by code_simp
  then show "mk_entry Posix ''/r/D/E'' sz f = (''/r/D/E'', sz, f, False, ''Unknown'')"
    by (simp add: mk_entry_def)
  have "is_safe_to_delete Posix ''/r/D/E/f'' = (False, ''Unknown'')" by code_simp
  then show "mk_entry Posix ''/r/D/E/f'' sz f = (''/r/D/E/f'', sz, f, False, ''Unknown'')"
    by (simp add: mk_entry_def)
qed

lemmas ex_eval = scan_directory_Dir scan_directory_File scan_directory_Special
  posix_env_def ex_long_paths ex_joins ex_hidden ex_entries add_subdir_def e_size_def

text \<open>
  Claim C1, at failing inputs. The size of an emitted directory entry is the sum of the
  sizes of the entries that the recursive call emitted, not of the files beneath the
  directory. (1) In \<open>tree_two_files\<close>, \<open>D\<close> holds 110 bytes; with threshold 50 its entry
  has size 100, since the file of 10 bytes is not emitted, and with threshold 0 it has
  size 110: the reported size depends on the threshold. (2) In \<open>tree_nested\<close>, \<open>D\<close> holds
  100 bytes; with threshold 0 its entry has size 200, since the emitted entry of \<open>E\<close> is
  summed together with the file in \<open>E\<close>. \<open>scan_with_progress\<close> returns the same.
\<close>

theorem directory_size_sums_emitted_entries:
  "scan_directory posix_env ''/r'' tree_two_files False 50 =
     [(''/r/D/b'', 100, True, False, ''Unknown''), (''/r/D'', 100, False, False, ''Unknown'')] \<and>
   scan_directory posix_env ''/r'' tree_two_files False 0 =
     [(''/r/D/a'', 10, True, False, ''Unknown''), (''/r/D/b'', 100, True, False, ''Unknown''),
      (''/r/D'', 110, False, False, ''Unknown'')] \<and>
   scan_directory posix_env ''/r'' tree_nested False 0 =
     [(''/r/D/E/f'', 100, True, False, ''Unknown''), (''/r/D/E'', 100, False, False, ''Unknown''),
      (''/r/D'', 200, False, False, ''Unknown'')] \<and>
   fst (scan_with_progress posix_env ''/r'' tree_two_files False 50 0) =
     [(''/r/D/b'', 100, True, False, ''Unknown''), (''/r/D'', 100, False, False, ''Unknown'')] \<and>
   fst (scan_with_progress posix_env ''/r'' tree_nested False 0 0) =
     [(''/r/D/E/f'', 100, True, False, ''Unknown''), (''/r/D/E'', 100, False, False, ''Unknown''),
      (''/r/D'', 200, False, False, ''Unknown'')]"
proof -
  have a: "scan_directory posix_env ''/r'' tree_two_files False 50 =
     [(''/r/D/b'', 100, True, False, ''Unknown''), (''/r/D'', 100, False, False, ''Unknown'')]"
    by (simp add: tree_two_files_def ex_eval)
  have b: "scan_directory posix_env ''/r'' tree_two_files False 0 =
     [(''/r/D/a'', 10, True, False, ''Unknown''), (''/r/D/b'', 100, True, False, ''Unknown''),
      (''/r/D'', 110, False, False, ''Unknown'')]"
    by (simp add: tree_two_files_def ex_eval)
  have c: "scan_directory posix_env ''/r'' tree_nested False 0 =
     [(''/r/D/E/f'', 100, True, False, ''Unknown''), (''/r/D/E'', 100, False, False, ''Unknown''),
      (''/r/D'', 200, False, False, ''Unknown'')]"
    by (simp add: tree_nested_def ex_eval)
  from a b c show ?thesis by (simp only: scan_with_progress_results)
qed

section \<open>Properties of the deleter\<close>





end
